theory Spec2Isabelle
  imports Complex_Main "HOL-Library.Word" "HOL-Library.AList"
begin

unbundle bit_operations_syntax

section \<open>Bytes, struct packing and the MD5 checksum\<close>

text \<open>
  Python \<open>bytes\<close> are lists of 8-bit words, Python integers are \<open>int\<close>, Python floats
  (timestamps, latencies, metric values) are idealised as \<open>real\<close>. The integer \<open>0\<close>
  and the float \<open>0.0\<close> that the sampler mixes in one dictionary are both the real 0.
\<close>

type_synonym byte = "8 word"
type_synonym u32 = "32 word"

datatype error = StructError | ValueError

text \<open>\<open>struct.pack('!I', n)\<close>: four bytes, most significant first.\<close>

definition be32 :: "int \<Rightarrow> byte list" where
  "be32 n = [of_int (n div 16777216), of_int (n div 65536), of_int (n div 256), of_int n]"

text \<open>The unsigned integer a big-endian byte string stands for.\<close>

definition be_int :: "byte list \<Rightarrow> int" where
  "be_int bs = foldl (\<lambda>acc b. acc * 256 + uint b) 0 bs"

text \<open>\<open>struct.pack('!II', a, b)\<close> raises \<open>struct.error\<close> outside the unsigned 32-bit range.\<close>

definition pack_II :: "int \<Rightarrow> int \<Rightarrow> error + byte list" where
  "pack_II a b =
     (if 0 \<le> a \<and> a < 4294967296 \<and> 0 \<le> b \<and> b < 4294967296
      then Inr (be32 a @ be32 b) else Inl StructError)"

text \<open>\<open>struct.unpack('!I', bs)\<close> and \<open>struct.unpack('!II', bs)\<close> raise \<open>struct.error\<close>
  unless the buffer has exactly 4 (8) bytes.\<close>

definition unpack_I :: "byte list \<Rightarrow> error + int" where
  "unpack_I bs = (if length bs = 4 then Inr (be_int bs) else Inl StructError)"

definition unpack_II :: "byte list \<Rightarrow> error + int \<times> int" where
  "unpack_II bs =
     (if length bs = 8 then Inr (be_int (take 4 bs), be_int (drop 4 bs)) else Inl StructError)"

subsection \<open>\<open>hashlib.md5\<close> (RFC 1321)\<close>

definition md5_s :: "nat list" where
  "md5_s = [7, 12, 17, 22, 7, 12, 17, 22, 7, 12, 17, 22, 7, 12, 17, 22,
            5, 9, 14, 20, 5, 9, 14, 20, 5, 9, 14, 20, 5, 9, 14, 20,
            4, 11, 16, 23, 4, 11, 16, 23, 4, 11, 16, 23, 4, 11, 16, 23,
            6, 10, 15, 21, 6, 10, 15, 21, 6, 10, 15, 21, 6, 10, 15, 21]"

definition md5_K :: "u32 list" where
  "md5_K = [0xd76aa478, 0xe8c7b756, 0x242070db, 0xc1bdceee,
            0xf57c0faf, 0x4787c62a, 0xa8304613, 0xfd469501,
            0x698098d8, 0x8b44f7af, 0xffff5bb1, 0x895cd7be,
            0x6b901122, 0xfd987193, 0xa679438e, 0x49b40821,
            0xf61e2562, 0xc040b340, 0x265e5a51, 0xe9b6c7aa,
            0xd62f105d, 0x02441453, 0xd8a1e681, 0xe7d3fbc8,
            0x21e1cde6, 0xc33707d6, 0xf4d50d87, 0x455a14ed,
            0xa9e3e905, 0xfcefa3f8, 0x676f02d9, 0x8d2a4c8a,
            0xfffa3942, 0x8771f681, 0x6d9d6122, 0xfde5380c,
            0xa4beea44, 0x4bdecfa9, 0xf6bb4b60, 0xbebfbc70,
            0x289b7ec6, 0xeaa127fa, 0xd4ef3085, 0x04881d05,
            0xd9d4d039, 0xe6db99e5, 0x1fa27cf8, 0xc4ac5665,
            0xf4292244, 0x432aff97, 0xab9423a7, 0xfc93a039,
            0x655b59c3, 0x8f0ccc92, 0xffeff47d, 0x85845dd1,
            0x6fa87e4f, 0xfe2ce6e0, 0xa3014314, 0x4e0811a1,
            0xf7537e82, 0xbd3af235, 0x2ad7d2bb, 0xeb86d391]"

definition le_u32 :: "byte list \<Rightarrow> u32" where
  "le_u32 bs = foldr (\<lambda>b w. ucast b OR push_bit 8 w) bs 0"

definition u32_le_bytes :: "u32 \<Rightarrow> byte list" where
  "u32_le_bytes w = [ucast w, ucast (drop_bit 8 w), ucast (drop_bit 16 w), ucast (drop_bit 24 w)]"

fun le_bytes :: "nat \<Rightarrow> nat \<Rightarrow> byte list" where
  "le_bytes 0 n = []"
| "le_bytes (Suc k) n = of_nat (n mod 256) # le_bytes k (n div 256)"

fun chunks_of :: "nat \<Rightarrow> nat \<Rightarrow> 'a list \<Rightarrow> 'a list list" where
  "chunks_of 0 n xs = []"
| "chunks_of (Suc k) n xs = take n xs # chunks_of k n (drop n xs)"

text \<open>Padding: a 1 bit, zeros up to 56 modulo 64 bytes, the bit length as 64 bits little-endian.\<close>

definition md5_pad :: "byte list \<Rightarrow> byte list" where
  "md5_pad m = m @ [0x80] @ replicate ((64 - (length m + 9) mod 64) mod 64) 0
     @ le_bytes 8 (8 * length m)"

definition md5_step ::
  "u32 list \<Rightarrow> u32 \<times> u32 \<times> u32 \<times> u32 \<Rightarrow> nat \<Rightarrow> u32 \<times> u32 \<times> u32 \<times> u32" where
  "md5_step M st i = (case st of (a, b, c, d) \<Rightarrow>
     (let (f, g) =
        (if i < 16 then ((b AND c) OR (NOT b AND d), i)
         else if i < 32 then ((d AND b) OR (NOT d AND c), (5 * i + 1) mod 16)
         else if i < 48 then (b XOR c XOR d, (3 * i + 5) mod 16)
         else (c XOR (b OR NOT d), (7 * i) mod 16))
      in (d, b + word_rotl (md5_s ! i) (f + a + md5_K ! i + M ! g), b, c)))"

definition md5_block :: "u32 \<times> u32 \<times> u32 \<times> u32 \<Rightarrow> byte list \<Rightarrow> u32 \<times> u32 \<times> u32 \<times> u32" where
  "md5_block st blk = (case st of (a0, b0, c0, d0) \<Rightarrow>
     (case foldl (md5_step (map le_u32 (chunks_of 16 4 blk))) st [0..<64] of
        (a, b, c, d) \<Rightarrow> (a0 + a, b0 + b, c0 + c, d0 + d)))"

definition md5 :: "byte list \<Rightarrow> byte list" where
  "md5 m = (let p = md5_pad m in
     case foldl md5_block (0x67452301, 0xefcdab89, 0x98badcfe, 0x10325476)
            (chunks_of (length p div 64) 64 p) of
       (a, b, c, d) \<Rightarrow> u32_le_bytes a @ u32_le_bytes b @ u32_le_bytes c @ u32_le_bytes d)"

text \<open>
  \<open>struct.unpack('!I', hashlib.md5(data).digest()[:4])[0]\<close>, the checksum both the sender
  and the sampler compute. The digest always has 16 bytes, so the unpack cannot raise
  (lemma \<open>unpack_I_md5\<close> below).
\<close>

definition md5_checksum :: "byte list \<Rightarrow> int" where
  "md5_checksum d = be_int (take 4 (md5 d))"

section \<open>Sockets\<close>

text \<open>
  A stream connection as seen by its reader: the chunks in which the remaining bytes become
  available to successive reads, in order; the empty list is a connection the peer has
  closed. \<open>conn.recv(n)\<close> returns at most \<open>n\<close> bytes of the chunk at the front and leaves
  the rest of it for the next read; it returns \<open>b''\<close> at end of stream (and for \<open>n = 0\<close>).
\<close>

type_synonym conn = "byte list list"

fun recv :: "nat \<Rightarrow> conn \<Rightarrow> byte list \<times> conn" where
  "recv n [] = ([], [])"
| "recv n (c # cs) =
     (if c = [] then recv n cs
      else if length c \<le> n then (c, cs)
      else (take n c, drop n c # cs))"

definition conn_size :: "conn \<Rightarrow> nat" where
  "conn_size cs = sum_list (map (\<lambda>c. Suc (length c)) cs)"

section \<open>The client: \<open>NetworkTester\<close>\<close>

record recv_info =
  recv_time :: real
  checksum :: int
  data :: "byte list"

text \<open>
  The two dictionaries are association lists in insertion order, as a Python \<open>dict\<close>
  iterates them; \<open>d[k] = v\<close> is \<open>AList.update k v d\<close> (replace in place, or append).
  A metric sample is the dictionary literal of \<open>measure_metrics\<close>, in its key order.
\<close>

type_synonym sample = "(string \<times> real) list"

record tester =
  packet_size :: nat
  duration :: real
  output_file :: string
  metrics :: "sample list"
  start_time :: real
  sequence_number :: int
  received_packets :: "(int \<times> recv_info) list"
  sent_packets :: "(int \<times> real) list"
  stop_event :: bool

text \<open>\<open>__init__\<close>; the last argument is the reading of \<open>time.time()\<close>.\<close>

definition init :: "nat \<Rightarrow> real \<Rightarrow> string \<Rightarrow> real \<Rightarrow> tester" where
  "init psize dur out now =
     \<lparr>packet_size = psize, duration = dur, output_file = out, metrics = [],
      start_time = now, sequence_number = 0, received_packets = [], sent_packets = [],
      stop_event = False\<rparr>"

subsection \<open>\<open>send_packets\<close>\<close>

text \<open>
  What one iteration of the sender's loop takes from its environment: whether the stop
  event is set when the loop condition is tested, the clock, the bytes of
  \<open>os.urandom(packet_size)\<close>, and whether \<open>sock.sendall\<close> returns (or raises).
\<close>

record send_env =
  env_stop :: bool
  env_time :: real
  env_data :: "byte list"
  env_send_ok :: bool

text \<open>
  How a loop of the sender or the receiver stands after the iterations modelled: still
  \<open>Running\<close>, or left because the stop event was set, the duration had elapsed, a send
  failed, the connection or the packing failed, the peer closed, or a read raised.
\<close>

datatype status =
  Running | Stopped | DurationElapsed | SendError | ConnectionError
  | PeerClosed | ReceiveError error

text \<open>Lines 60 to 63: the frame for a sequence number and a payload.\<close>

definition make_packet :: "int \<Rightarrow> byte list \<Rightarrow> error + byte list" where
  "make_packet seq_num d =
     (case pack_II seq_num (md5_checksum d) of
        Inl e \<Rightarrow> Inl e
      | Inr header \<Rightarrow> Inr (header @ d))"

text \<open>
  The loop, one environment record per iteration; the third component of the state is the
  list of packets \<open>sendall\<close> has written. An exhausted environment leaves the loop
  \<open>Running\<close>: the result is then the state reached after that many iterations.
  A \<open>struct.error\<close> from \<open>pack\<close> is caught by the outer handler, which sets the stop event.
\<close>

fun send_loop :: "send_env list \<Rightarrow> tester \<Rightarrow> byte list list \<Rightarrow> status \<times> tester \<times> byte list list" where
  "send_loop [] s wire = (Running, s, wire)"
| "send_loop (e # es) s wire =
     (if env_stop e then (Stopped, s, wire)
      else if env_time e - start_time s \<ge> duration s then (DurationElapsed, s, wire)
      else (case make_packet (sequence_number s) (env_data e) of
         Inl err \<Rightarrow> (ConnectionError, s\<lparr>stop_event := True\<rparr>, wire)
       | Inr packet \<Rightarrow>
           (let s1 = s\<lparr>sent_packets :=
                        AList.update (sequence_number s) (env_time e) (sent_packets s)\<rparr>
            in if \<not> env_send_ok e then (SendError, s1, wire)
               else send_loop es (s1\<lparr>sequence_number := sequence_number s1 + 1\<rparr>)
                      (wire @ [packet]))))"

text \<open>\<open>send_packets\<close>: the connect may fail, which also sets the stop event.\<close>

definition send_packets :: "bool \<Rightarrow> send_env list \<Rightarrow> tester \<Rightarrow> status \<times> tester \<times> byte list list" where
  "send_packets connect_ok es s =
     (if connect_ok then send_loop es s [] else (ConnectionError, s\<lparr>stop_event := True\<rparr>, []))"

subsection \<open>\<open>receive_packets\<close>\<close>

datatype outcome = Continue | Closed | Failed error

text \<open>
  One pass through the body of the receiver's loop (lines 94 to 113), on the connection
  and the received dictionary, with the clock reading \<open>now\<close>.
\<close>

definition receive_frame ::
  "nat \<Rightarrow> real \<Rightarrow> conn \<Rightarrow> (int \<times> recv_info) list \<Rightarrow> outcome \<times> conn \<times> (int \<times> recv_info) list" where
  "receive_frame psize now c received =
     (case recv 8 c of (header, c1) \<Rightarrow>
        if header = [] then (Closed, c1, received)
        else (case unpack_II header of
           Inl e \<Rightarrow> (Failed e, c1, received)
         | Inr (seq_num, ck) \<Rightarrow>
             (case recv psize c1 of (d, c2) \<Rightarrow>
                if d = [] then (Closed, c2, received)
                else (Continue, c2,
                      AList.update seq_num \<lparr>recv_time = now, checksum = ck, data = d\<rparr> received))))"

text \<open>
  The loop on an accepted connection: one pair (stop event set?, clock) per iteration, an
  exhausted list leaving the loop \<open>Running\<close> as for the sender.
\<close>

fun receive_loop ::
  "nat \<Rightarrow> (bool \<times> real) list \<Rightarrow> conn \<Rightarrow> (int \<times> recv_info) list \<Rightarrow> status \<times> (int \<times> recv_info) list" where
  "receive_loop psize [] c received = (Running, received)"
| "receive_loop psize ((stop, now) # es) c received =
     (if stop then (Stopped, received)
      else (case receive_frame psize now c received of
         (Continue, c', received') \<Rightarrow> receive_loop psize es c' received'
       | (Closed, c', received') \<Rightarrow> (PeerClosed, received')
       | (Failed e, c', received') \<Rightarrow> (ReceiveError e, received')))"

definition receive_packets :: "(bool \<times> real) list \<Rightarrow> conn \<Rightarrow> tester \<Rightarrow> status \<times> tester" where
  "receive_packets es c s =
     (case receive_loop (packet_size s) es c (received_packets s) of
        (st, received') \<Rightarrow> (st, s\<lparr>received_packets := received'\<rparr>))"

subsection \<open>\<open>measure_metrics\<close> and \<open>calculate_jitter\<close>\<close>

definition calculate_jitter :: "real list \<Rightarrow> real" where
  "calculate_jitter ls =
     (if ls = [] \<or> length ls < 2 then 0
      else (let mean_latency = sum_list ls / real (length ls)
            in sum_list (map (\<lambda>latency. \<bar>latency - mean_latency\<bar>) ls) / real (length ls)))"

text \<open>The variables the \<open>for\<close> loop over \<open>sent_packets.items()\<close> updates.\<close>

record scan =
  latencies :: "real list"
  out_of_order :: nat
  corrupt_packets :: nat
  last_seq_num :: int

definition scan_init :: scan where
  "scan_init = \<lparr>latencies = [], out_of_order = 0, corrupt_packets = 0, last_seq_num = - 1\<rparr>"

definition scan_step :: "(int \<times> recv_info) list \<Rightarrow> scan \<Rightarrow> int \<times> real \<Rightarrow> scan" where
  "scan_step received acc item = (case item of (seq_num, send_time) \<Rightarrow>
     (case map_of received seq_num of
        None \<Rightarrow> acc
      | Some info \<Rightarrow>
          \<lparr>latencies = latencies acc @ [recv_time info - send_time],
           out_of_order =
             (if seq_num < last_seq_num acc then out_of_order acc + 1 else out_of_order acc),
           corrupt_packets =
             (if md5_checksum (data info) \<noteq> checksum info
              then corrupt_packets acc + 1 else corrupt_packets acc),
           last_seq_num = seq_num\<rparr>))"

definition scan_sent :: "(int \<times> real) list \<Rightarrow> (int \<times> recv_info) list \<Rightarrow> scan" where
  "scan_sent sent received = foldl (scan_step received) scan_init sent"

text \<open>The dictionary appended to \<open>self.metrics\<close> at one tick (lines 130 to 168).\<close>

definition metric_sample ::
  "nat \<Rightarrow> (int \<times> real) list \<Rightarrow> (int \<times> recv_info) list \<Rightarrow> real \<Rightarrow> sample" where
  "metric_sample psize sent received elapsed_time =
     (let sent_count = length sent;
          received_count = length received;
          packet_loss = (if sent_count > 0
                         then (real sent_count - real received_count) / real sent_count else 0);
          sc = scan_sent sent received;
          avg_latency = (if latencies sc \<noteq> []
                         then sum_list (latencies sc) / real (length (latencies sc)) else 0);
          jitter = calculate_jitter (latencies sc);
          bandwidth = (if elapsed_time > 0
                       then real (received_count * psize * 8) / elapsed_time else 0)
      in [(''Time'', elapsed_time),
          (''Bandwidth(bps)'', bandwidth),
          (''Latency(s)'', avg_latency),
          (''Jitter(s)'', jitter),
          (''Packet Loss(%)'', packet_loss * 100),
          (''Corrupt Packets'', real (corrupt_packets sc)),
          (''Out-of-Order Packets'', real (out_of_order sc))])"

text \<open>One tick of \<open>measure_metrics\<close> at clock reading \<open>current_time\<close>.\<close>

definition measure_metrics :: "real \<Rightarrow> tester \<Rightarrow> tester" where
  "measure_metrics current_time s =
     s\<lparr>metrics := metrics s @
        [metric_sample (packet_size s) (sent_packets s) (received_packets s)
           (current_time - start_time s)]\<rparr>"

subsection \<open>\<open>save_metrics\<close>\<close>

text \<open>
  A CSV file as \<open>csv.DictWriter\<close> writes it: the header row, then for each dictionary the
  values under the field names (a missing key gives the empty cell \<open>None\<close>; a key that is
  no field name raises \<open>ValueError\<close>, and what is left of the file then is not modelled).
  The file system maps a path to the file's rows; opening the file is taken to succeed.
\<close>

record csv_file =
  header_row :: "string list"
  data_rows :: "real option list list"

definition dict_to_list :: "string list \<Rightarrow> sample \<Rightarrow> error + real option list" where
  "dict_to_list fieldnames rowdict =
     (if list_ex (\<lambda>k. k \<notin> set fieldnames) (map fst rowdict) then Inl ValueError
      else Inr (map (map_of rowdict) fieldnames))"

fun writerows :: "string list \<Rightarrow> sample list \<Rightarrow> error + real option list list" where
  "writerows fieldnames [] = Inr []"
| "writerows fieldnames (m # ms) =
     (case dict_to_list fieldnames m of
        Inl e \<Rightarrow> Inl e
      | Inr r \<Rightarrow> (case writerows fieldnames ms of Inl e \<Rightarrow> Inl e | Inr rs \<Rightarrow> Inr (r # rs)))"

definition save_metrics :: "tester \<Rightarrow> (string \<rightharpoonup> csv_file) \<Rightarrow> error + (string \<rightharpoonup> csv_file)" where
  "save_metrics s fs =
     (case metrics s of
        [] \<Rightarrow> Inr fs
      | m # ms \<Rightarrow>
          (let keys = map fst m in
           case writerows keys (metrics s) of
             Inl e \<Rightarrow> Inl e
           | Inr rows \<Rightarrow> Inr (fs(output_file s \<mapsto> \<lparr>header_row = keys, data_rows = rows\<rparr>))))"

section \<open>The server: \<open>handle_client\<close>\<close>

lemma recv_size_le: "conn_size (snd (recv n c)) \<le> conn_size c"
  by (induction c) (simp_all add: conn_size_def)

lemma recv_size_less: "fst (recv n c) \<noteq> [] \<Longrightarrow> conn_size (snd (recv n c)) < conn_size c"
  by (induction c) (auto simp: conn_size_def)

text \<open>
  The echo loop on one connection; the last argument collects the bytes written back with
  \<open>conn.sendall\<close>, which is taken to succeed. The loop ends by \<open>break\<close> (\<open>Closed\<close>) or
  by the exception of \<open>struct.unpack\<close> on a header of fewer than 8 bytes.
\<close>

function handle_client :: "nat \<Rightarrow> conn \<Rightarrow> byte list \<Rightarrow> outcome \<times> byte list" where
  "handle_client psize c out =
     (let header = fst (recv 8 c); c1 = snd (recv 8 c) in
      if header = [] then (Closed, out)
      else (case unpack_II header of
         Inl e \<Rightarrow> (Failed e, out)
       | Inr (seq_num, ck) \<Rightarrow>
           (let d = fst (recv psize c1); c2 = snd (recv psize c1) in
            if d = [] then (Closed, out)
            else handle_client psize c2 (out @ header @ d))))"
  by pat_completeness auto
termination
proof (relation "measure (\<lambda>(psize, c, out). conn_size c)")
  show "wf (measure (\<lambda>(psize, c, out). conn_size c))" by simp
next
  fix psize :: nat and c :: conn and out :: "byte list" and header c1 x2 d c2 x y
  assume "header = fst (recv 8 c)" "c1 = snd (recv 8 c)" "header \<noteq> []"
    "d = fst (recv psize c1)" "c2 = snd (recv psize c1)" "d \<noteq> []"
  then have "conn_size c2 < conn_size c1" "conn_size c1 \<le> conn_size c"
    using recv_size_less [of psize c1] recv_size_le [of 8 c] by simp_all
  then show "((psize, c2, out @ header @ d), (psize, c, out)) \<in> measure (\<lambda>(psize, c, out). conn_size c)"
    by simp
qed

declare handle_client.simps [simp del]

section \<open>Notions the properties are stated with\<close>

text \<open>The keys of a dictionary, in iteration order.\<close>

definition keys :: "('k \<times> 'v) list \<Rightarrow> 'k list" where
  "keys d = map fst d"

text \<open>Arithmetic mean and mean absolute deviation from the mean, as the specification words
  the jitter.\<close>

definition mean :: "real list \<Rightarrow> real" where
  "mean xs = sum_list xs / real (length xs)"

definition mean_abs_dev :: "real list \<Rightarrow> real" where
  "mean_abs_dev xs = mean (map (\<lambda>x. \<bar>x - mean xs\<bar>) xs)"

text \<open>The loss field of a sample.\<close>

definition packet_loss_pct :: "sample \<Rightarrow> real option" where
  "packet_loss_pct m = map_of m ''Packet Loss(%)''"

text \<open>The field order of the output file, and the states whose samples all have it.\<close>

definition metric_fields :: "string list" where
  "metric_fields = [''Time'', ''Bandwidth(bps)'', ''Latency(s)'', ''Jitter(s)'',
     ''Packet Loss(%)'', ''Corrupt Packets'', ''Out-of-Order Packets'']"

definition well_sampled :: "tester \<Rightarrow> bool" where
  "well_sampled s = list_all (\<lambda>m. map fst m = metric_fields) (metrics s)"

text \<open>
  The sequence numbers present in both dictionaries, in the order the sampler's loop meets
  them; the number of places where such a list steps down; and the latencies of the
  matched records in that order.
\<close>

definition matched :: "(int \<times> real) list \<Rightarrow> (int \<times> recv_info) list \<Rightarrow> int list" where
  "matched sent received = filter (\<lambda>k. map_of received k \<noteq> None) (keys sent)"

fun descents :: "int list \<Rightarrow> nat" where
  "descents (x # y # zs) = (if y < x then 1 else 0) + descents (y # zs)"
| "descents zs = 0"

definition matched_latencies :: "(int \<times> real) list \<Rightarrow> (int \<times> recv_info) list \<Rightarrow> real list" where
  "matched_latencies sent received =
     concat (map (\<lambda>(k, t). case map_of received k of
                              None \<Rightarrow> []
                            | Some info \<Rightarrow> [recv_time info - t]) sent)"

text \<open>A sequence number whose received record fails the sampler's checksum comparison.\<close>

definition counted_corrupt :: "(int \<times> recv_info) list \<Rightarrow> int \<Rightarrow> bool" where
  "counted_corrupt received k =
     (case map_of received k of
        None \<Rightarrow> False
      | Some info \<Rightarrow> md5_checksum (data info) \<noteq> checksum info)"

section \<open>Facts about the codec\<close>

lemma md5_length: "length (md5 m) = 16"
  by (simp add: md5_def u32_le_bytes_def Let_def split: prod.splits)

text \<open>The MD5 test vector for the one-byte message \<open>a\<close> (digest \<open>0cc175b9...\<close>).\<close>

lemma md5_checksum_a: "md5_checksum [0x61] = 214005177"
  by code_simp

text \<open>The test vector of RFC 1321 for the message \<open>abc\<close>.\<close>

lemma md5_abc:
  "md5 [0x61, 0x62, 0x63] =
     [0x90, 0x01, 0x50, 0x98, 0x3c, 0xd2, 0x4f, 0xb0,
      0xd6, 0x96, 0x3f, 0x7d, 0x28, 0xe1, 0x7f, 0x72]"
  by code_simp

lemma unpack_I_md5: "unpack_I (take 4 (md5 d)) = Inr (md5_checksum d)"
  by (simp add: unpack_I_def md5_checksum_def md5_length)

lemma be_int4: "be_int [a, b, c, d] = ((uint a * 256 + uint b) * 256 + uint c) * 256 + uint d"
  by (simp add: be_int_def)

lemma uint_byte_bounds: "0 \<le> uint (b :: byte) \<and> uint b \<le> 255"
  using uint_bounded [of b] by simp

lemma be_int4_range: "0 \<le> be_int [a, b, c, d] \<and> be_int [a, b, c, d] < 4294967296"
  using uint_byte_bounds [of a] uint_byte_bounds [of b] uint_byte_bounds [of c]
    uint_byte_bounds [of d]
  unfolding be_int4 by simp

lemma md5_take4: "\<exists>w. take 4 (md5 d) = u32_le_bytes w"
proof -
  obtain a b c e where "foldl md5_block (0x67452301, 0xefcdab89, 0x98badcfe, 0x10325476)
            (chunks_of (length (md5_pad d) div 64) 64 (md5_pad d)) = (a, b, c, e)"
    using prod_cases4 by blast
  then have "take 4 (md5 d) = u32_le_bytes a"
    by (simp add: md5_def Let_def u32_le_bytes_def)
  then show ?thesis by blast
qed

lemma md5_checksum_range: "0 \<le> md5_checksum d \<and> md5_checksum d < 4294967296"
proof -
  obtain w where "take 4 (md5 d) = u32_le_bytes w"
    using md5_take4 by blast
  then show ?thesis using be_int4_range by (simp add: md5_checksum_def u32_le_bytes_def)
qed

lemma be_int_be32: "0 \<le> n \<Longrightarrow> n < 4294967296 \<Longrightarrow> be_int (be32 n) = n"
  unfolding be32_def be_int4
proof -
  assume n: "0 \<le> n" "n < 4294967296"
  have a: "n div 65536 = n div 256 div 256" "n div 16777216 = n div 256 div 256 div 256"
    by (simp_all add: zdiv_zmult2_eq)
  have b: "n div 256 div 256 div 256 < 256" using n by simp
  have c: "0 \<le> n div 256 div 256 div 256" using n by simp
  show "((uint (word_of_int (n div 16777216) :: byte) * 256
          + uint (word_of_int (n div 65536) :: byte)) * 256
          + uint (word_of_int (n div 256) :: byte)) * 256 + uint (word_of_int n :: byte) = n"
    unfolding a using b c
    by (simp add: uint_word_of_int take_bit_eq_mod)
qed

lemma length_be32: "length (be32 n) = 4"
  by (simp add: be32_def)

lemma unpack_II_be32:
  "0 \<le> a \<Longrightarrow> a < 4294967296 \<Longrightarrow> 0 \<le> b \<Longrightarrow> b < 4294967296 \<Longrightarrow>
   unpack_II (be32 a @ be32 b) = Inr (a, b)"
  by (simp add: unpack_II_def length_be32 be_int_be32)

lemma make_packet_ok:
  "0 \<le> seq_num \<Longrightarrow> seq_num < 4294967296 \<Longrightarrow>
   make_packet seq_num d = Inr (be32 seq_num @ be32 (md5_checksum d) @ d)"
  using md5_checksum_range [of d] by (simp add: make_packet_def pack_II_def)

lemma recv_front:
  "length h = n \<Longrightarrow> n > 0 \<Longrightarrow> recv n ((h @ r) # cs) = (h, if r = [] then cs else r # cs)"
  by auto

section \<open>The frame round trip\<close>

text \<open>
  Claim C3. For every sequence number in the unsigned 32-bit range and every payload of
  exactly \<open>packet_size\<close> (positive) bytes, the sender's frame is the 4-byte big-endian
  sequence number, the 4-byte big-endian checksum and the payload, 8 + \<open>packet_size\<close>
  bytes in all, and the receiver reading that frame records the sequence number, the
  checksum of the payload and the payload. The checksum is the big-endian integer of the
  first four bytes of the MD5 digest of the payload.
\<close>

theorem frame_roundtrip:
  assumes "0 \<le> seq_num" and "seq_num < 4294967296"
    and "length payload = psize" and "0 < psize"
  shows "\<exists>packet. make_packet seq_num payload = Inr packet \<and>
           packet = be32 seq_num @ be32 (md5_checksum payload) @ payload \<and>
           length packet = 8 + psize \<and>
           unpack_I (take 4 (md5 payload)) = Inr (md5_checksum payload) \<and>
           receive_frame psize now [packet] received =
             (Continue, [],
              AList.update seq_num
                \<lparr>recv_time = now, checksum = md5_checksum payload, data = payload\<rparr> received)"
proof -
  let ?h = "be32 seq_num @ be32 (md5_checksum payload)"
  have len: "length ?h = 8" by (simp add: length_be32)
  have pk: "make_packet seq_num payload = Inr (?h @ payload)"
    using assms make_packet_ok by simp
  have ne: "payload \<noteq> []" using assms by auto
  have r1: "recv 8 [?h @ payload] = (?h, [payload])"
    using recv_front [of ?h 8 payload "[]"] len ne by simp
  have r2: "recv psize [payload] = (payload, [])"
    using recv_front [of payload psize "[]" "[]"] assms by simp
  have hne: "?h \<noteq> []" using len by auto
  have up: "unpack_II ?h = Inr (seq_num, md5_checksum payload)"
    using unpack_II_be32 assms md5_checksum_range [of payload] by simp
  have "receive_frame psize now [?h @ payload] received =
          (Continue, [],
              AList.update seq_num
                \<lparr>recv_time = now, checksum = md5_checksum payload, data = payload\<rparr> received)"
    unfolding receive_frame_def using r1 r2 hne up ne by simp
  then show ?thesis using pk len assms unpack_I_md5 by simp
qed

theorem frame_roundtrip_witness:
  "(0::int) \<le> 7 \<and> (7::int) < 4294967296 \<and> length [1, 2, 3 :: byte] = 3 \<and> (0::nat) < 3 \<and>
   (\<exists>packet. make_packet 7 [1, 2, 3] = Inr packet \<and>
      packet = be32 7 @ be32 (md5_checksum [1, 2, 3]) @ [1, 2, 3] \<and>
      length packet = 8 + 3 \<and>
      unpack_I (take 4 (md5 [1, 2, 3])) = Inr (md5_checksum [1, 2, 3]) \<and>
      receive_frame 3 10 [packet] [] =
        (Continue, [],
         [(7, \<lparr>recv_time = 10, checksum = md5_checksum [1, 2, 3], data = [1, 2, 3]\<rparr>)]))"
  using frame_roundtrip [of 7 "[1, 2, 3]" 3 10 "[]"] by simp

section \<open>Jitter\<close>

text \<open>
  Claim C6. The jitter of a list of latencies is 0 when the list has fewer than two
  elements, and for every non-empty list it is the mean absolute deviation of the
  latencies from their arithmetic mean (which is 0 for a single latency).
\<close>

theorem jitter_mean_abs_dev:
  "(length ls < 2 \<longrightarrow> calculate_jitter ls = 0) \<and>
   (ls \<noteq> [] \<longrightarrow> calculate_jitter ls = mean_abs_dev ls)"
proof -
  have one: "calculate_jitter [x] = mean_abs_dev [x]" for x
    by (simp add: calculate_jitter_def mean_abs_dev_def mean_def)
  show ?thesis
  proof (cases ls)
    case Nil
    then show ?thesis by (simp add: calculate_jitter_def)
  next
    case (Cons x xs)
    show ?thesis
    proof (cases xs)
      case Nil
      with Cons one show ?thesis by (simp add: calculate_jitter_def)
    next
      case (Cons y ys)
      with \<open>ls = x # xs\<close> show ?thesis
        by (simp add: calculate_jitter_def mean_abs_dev_def mean_def Let_def)
    qed
  qed
qed

theorem jitter_mean_abs_dev_witness:
  "length [5 :: real] < 2 \<and> calculate_jitter [5] = 0 \<and> [5 :: real] \<noteq> [] \<and>
   calculate_jitter [5] = mean_abs_dev [5] \<and>
   [1, 3 :: real] \<noteq> [] \<and> calculate_jitter [1, 3] = mean_abs_dev [1, 3] \<and>
   mean_abs_dev [1, 3] = 1"
  using jitter_mean_abs_dev [of "[5]"] jitter_mean_abs_dev [of "[1, 3]"]
  by (simp add: mean_abs_dev_def mean_def)

section \<open>Packet loss\<close>

lemma loss_value:
  "packet_loss_pct (metric_sample psize sent received t) =
     Some (if length sent > 0
           then (real (length sent) - real (length received)) / real (length sent) * 100
           else 0)"
  by (simp add: packet_loss_pct_def metric_sample_def Let_def)

lemma keys_card:
  assumes "distinct (keys sent)" "distinct (keys received)"
    "set (keys received) \<subseteq> set (keys sent)"
  shows "length received \<le> length sent"
    and "length received = length sent \<longleftrightarrow> set (keys sent) \<subseteq> set (keys received)"
proof -
  have "card (set (keys sent)) = length (keys sent)"
    using assms(1) by (rule distinct_card)
  moreover have "card (set (keys received)) = length (keys received)"
    using assms(2) by (rule distinct_card)
  ultimately have ls: "length sent = card (set (keys sent))"
    "length received = card (set (keys received))"
    unfolding keys_def by simp_all
  show "length received \<le> length sent"
    unfolding ls using assms(3) by (simp add: card_mono)
  show "length received = length sent \<longleftrightarrow> set (keys sent) \<subseteq> set (keys received)"
    unfolding ls using assms(3)
    by (metis List.finite_set card_subset_eq subset_antisym)
qed

text \<open>
  Claim C1, as the code has it. The loss of a sample is
  (sent count - received count) / sent count * 100, and 0 when nothing was sent, the
  counts being the sizes of the two dictionaries. When every received sequence number is
  also a sent one (the dictionaries having distinct keys, as dictionaries do), the loss
  lies in [0, 100] and is 0 exactly when every sent sequence number has a received record.
\<close>

theorem packet_loss_range:
  assumes "distinct (keys sent)" and "distinct (keys received)"
    and "set (keys received) \<subseteq> set (keys sent)"
  shows "\<exists>loss. packet_loss_pct (metric_sample psize sent received t) = Some loss \<and>
           loss = (if length sent > 0
                   then (real (length sent) - real (length received)) / real (length sent) * 100
                   else 0) \<and>
           0 \<le> loss \<and> loss \<le> 100 \<and>
           (loss = 0 \<longleftrightarrow> list_all (\<lambda>k. map_of received k \<noteq> None) (keys sent))"
proof -
  let ?s = "length sent" and ?r = "length received"
  let ?loss = "if ?s > 0 then (real ?s - real ?r) / real ?s * 100 else 0"
  have le: "?r \<le> ?s" and eq: "?r = ?s \<longleftrightarrow> set (keys sent) \<subseteq> set (keys received)"
    using keys_card [OF assms] by simp_all
  have m: "list_all (\<lambda>k. map_of received k \<noteq> None) (keys sent)
             \<longleftrightarrow> set (keys sent) \<subseteq> set (keys received)"
    by (auto simp: list_all_iff keys_def map_of_eq_None_iff)
  have r1: "0 \<le> ?loss" using le by simp
  have r2: "?loss \<le> 100" using le by (simp add: field_simps)
  have r3: "?loss = 0 \<longleftrightarrow> ?r = ?s"
  proof (cases "?s > 0")
    case True
    then show ?thesis using le by (auto simp: field_simps)
  next
    case False
    then show ?thesis using le by simp
  qed
  show ?thesis using loss_value [of psize sent received t] r1 r2 r3 eq m by simp
qed

theorem packet_loss_range_witness:
  "distinct (keys [(0 :: int, 1 :: real), (1, 2)]) \<and>
   distinct (keys [(0 :: int, \<lparr>recv_time = 2, checksum = 0, data = []\<rparr>)]) \<and>
   set (keys [(0 :: int, \<lparr>recv_time = 2, checksum = 0, data = []\<rparr>)])
     \<subseteq> set (keys [(0 :: int, 1 :: real), (1, 2)]) \<and>
   (\<exists>loss. packet_loss_pct (metric_sample 64 [(0, 1), (1, 2)]
              [(0, \<lparr>recv_time = 2, checksum = 0, data = []\<rparr>)] 3) = Some loss \<and>
      loss = 50 \<and> 0 \<le> loss \<and> loss \<le> 100 \<and>
      (loss = 0 \<longleftrightarrow>
         list_all (\<lambda>k. map_of [(0 :: int, \<lparr>recv_time = 2, checksum = 0, data = []\<rparr>)] k \<noteq> None)
           (keys [(0 :: int, 1 :: real), (1, 2)])))"
  using packet_loss_range [of "[(0, 1), (1, 2)]"
      "[(0, \<lparr>recv_time = 2, checksum = 0, data = []\<rparr>)]" 64 3]
  by (simp add: keys_def)

text \<open>
  With a received record whose sequence number was never sent, the loss is negative; and
  with as many such records as sent ones it is 0 although a sent number has no record.
\<close>

theorem packet_loss_counterexample:
  "packet_loss_pct (metric_sample 64 [(0, 1)]
      [(0, \<lparr>recv_time = 2, checksum = 0, data = []\<rparr>),
       (1, \<lparr>recv_time = 2, checksum = 0, data = []\<rparr>)] 3) = Some (- 100) \<and>
   packet_loss_pct (metric_sample 64 [(0, 1)]
      [(7, \<lparr>recv_time = 2, checksum = 0, data = []\<rparr>)] 3) = Some 0 \<and>
   map_of [(7 :: int, \<lparr>recv_time = 2, checksum = 0, data = []\<rparr>)] 0 = None"
  by (simp add: loss_value)

section \<open>Persisting the samples\<close>

lemma metric_sample_fields: "map fst (metric_sample psize sent received t) = metric_fields"
  by (simp add: metric_sample_def metric_fields_def Let_def)

text \<open>Every state a run reaches is well sampled: \<open>measure_metrics\<close> is the only writer.\<close>

lemma well_sampled_init: "well_sampled (init psize dur out now)"
  by (simp add: well_sampled_def init_def)

lemma well_sampled_measure: "well_sampled s \<Longrightarrow> well_sampled (measure_metrics now s)"
  by (simp add: well_sampled_def measure_metrics_def metric_sample_fields)

lemma distinct_metric_fields: "distinct metric_fields"
  by (simp add: metric_fields_def)

lemma dict_to_list_own_keys:
  assumes "distinct (map fst m)"
  shows "dict_to_list (map fst m) m = Inr (map (\<lambda>p. Some (snd p)) m)"
proof -
  have "map_of m (fst p) = Some (snd p)" if "p \<in> set m" for p
    using assms that by (cases p) simp
  then have "map (map_of m) (map fst m) = map (\<lambda>p. Some (snd p)) m"
    by simp
  moreover have "\<not> list_ex (\<lambda>k. k \<notin> set (map fst m)) (map fst m)"
    by (simp add: list_ex_iff)
  ultimately show ?thesis by (simp add: dict_to_list_def)
qed

lemma writerows_sampled:
  "list_all (\<lambda>m. map fst m = metric_fields) ms \<Longrightarrow>
   writerows metric_fields ms = Inr (map (map (\<lambda>p. Some (snd p))) ms)"
proof (induction ms)
  case Nil
  then show ?case by simp
next
  case (Cons m ms)
  then have "map fst m = metric_fields" by simp
  then have "dict_to_list metric_fields m = Inr (map (\<lambda>p. Some (snd p)) m)"
    using dict_to_list_own_keys [of m] distinct_metric_fields by simp
  with Cons show ?case by simp
qed

text \<open>
  Claim C10. With no sample, \<open>save_metrics\<close> leaves the file system as it is; with at
  least one, it writes the output file: the header row Time, Bandwidth(bps), Latency(s),
  Jitter(s), Packet Loss(%), Corrupt Packets, Out-of-Order Packets, then one row per
  sample with the sample's values in that order.
\<close>

theorem save_metrics_file:
  assumes "well_sampled s"
  shows "save_metrics s fs =
     Inr (if metrics s = [] then fs
          else fs(output_file s \<mapsto>
                 \<lparr>header_row = metric_fields,
                  data_rows = map (map (\<lambda>p. Some (snd p))) (metrics s)\<rparr>))"
proof (cases "metrics s")
  case Nil
  then show ?thesis by (simp add: save_metrics_def)
next
  case (Cons m ms)
  then have all: "list_all (\<lambda>m. map fst m = metric_fields) (m # ms)"
    using assms by (simp add: well_sampled_def)
  then have "map fst m = metric_fields" by simp
  then show ?thesis
    using writerows_sampled [OF all] Cons by (simp add: save_metrics_def)
qed

theorem save_metrics_file_witness:
  "well_sampled (init 64 60 ''metrics.csv'' 0) \<and>
   save_metrics (init 64 60 ''metrics.csv'' 0) Map.empty = Inr Map.empty \<and>
   well_sampled (measure_metrics 1 (init 64 60 ''metrics.csv'' 0)) \<and>
   save_metrics (measure_metrics 1 (init 64 60 ''metrics.csv'' 0)) Map.empty =
     Inr [''metrics.csv'' \<mapsto>
       \<lparr>header_row = [''Time'', ''Bandwidth(bps)'', ''Latency(s)'', ''Jitter(s)'',
           ''Packet Loss(%)'', ''Corrupt Packets'', ''Out-of-Order Packets''],
        data_rows = [[Some 1, Some 0, Some 0, Some 0, Some 0, Some 0, Some 0]]\<rparr>]"
  using save_metrics_file [of "init 64 60 ''metrics.csv'' 0" Map.empty]
    save_metrics_file [of "measure_metrics 1 (init 64 60 ''metrics.csv'' 0)" Map.empty]
    well_sampled_init [of 64 60 "''metrics.csv''" 0]
    well_sampled_measure [OF well_sampled_init [of 64 60 "''metrics.csv''" 0], of 1]
  by (simp add: init_def measure_metrics_def metric_sample_def metric_fields_def
      scan_sent_def scan_init_def calculate_jitter_def)

section \<open>Reordering\<close>

lemma scan_fold:
  "out_of_order (foldl (scan_step received) acc sent) =
     out_of_order acc + descents (last_seq_num acc # matched sent received) \<and>
   last_seq_num (foldl (scan_step received) acc sent) =
     last (last_seq_num acc # matched sent received)"
proof (induction sent arbitrary: acc)
  case Nil
  then show ?case by (simp add: matched_def keys_def)
next
  case (Cons p sent)
  obtain k t where p: "p = (k, t)" by (cases p)
  show ?case
  proof (cases "map_of received k")
    case None
    then have "scan_step received acc p = acc"
      "matched (p # sent) received = matched sent received"
      using p by (simp_all add: scan_step_def matched_def keys_def)
    then show ?thesis using Cons.IH [of acc] by simp
  next
    case (Some info)
    let ?acc = "scan_step received acc p"
    have m: "matched (p # sent) received = k # matched sent received"
      using p Some by (simp add: matched_def keys_def)
    have a: "last_seq_num ?acc = k"
      "out_of_order ?acc = out_of_order acc + (if k < last_seq_num acc then 1 else 0)"
      using p Some by (simp_all add: scan_step_def)
    show ?thesis using Cons.IH [of ?acc] a m by simp
  qed
qed

lemma descents_sorted: "sorted ms \<Longrightarrow> descents ms = 0"
  by (induction ms rule: descents.induct) auto

lemma sorted_matched:
  "sorted (keys sent) \<Longrightarrow> list_all (\<lambda>k. - 1 \<le> k) (keys sent) \<Longrightarrow>
   sorted (- 1 # matched sent received)"
  using sorted_wrt_filter [of "(\<le>)" "keys sent" "\<lambda>k. map_of received k \<noteq> None"]
  by (auto simp: matched_def list_all_iff)

text \<open>
  The loop walks the sent dictionary, never the received one: on a sent dictionary in
  ascending order of sequence numbers (the only kind the sender builds) no matched number
  is less than the one before it, and the count is 0 whatever order the frames came back in.
\<close>

lemma ascending_no_reorder:
  "sorted (keys sent) \<Longrightarrow> list_all (\<lambda>k. - 1 \<le> k) (keys sent) \<Longrightarrow>
   out_of_order (scan_sent sent received) = 0"
  using scan_fold [of received scan_init sent] descents_sorted [OF sorted_matched]
  by (simp add: scan_sent_def scan_init_def)

text \<open>
  Claim C2 does not hold of \<open>measure_metrics\<close>, whose comment announces a check for
  out-of-order packets. Sequence numbers 3 and 5 are sent in this order; the frame 5 comes
  back first (received at 2.5) and the frame 3 after it (received at 3), so 5 is matched
  before 3 in arrival order. The sampler compares each matched number with the matched
  number before it in send order, 3 then 5, and reports no reorder event where the claim
  asks for at least 1.
\<close>

theorem reorder_arrival_ignored:
  "keys [(3 :: int, 1 :: real), (5, 2)] = [3, 5] \<and>
   keys [(5 :: int, \<lparr>recv_time = 5 / 2, checksum = 0, data = []\<rparr>),
         (3, \<lparr>recv_time = 3, checksum = 0, data = []\<rparr>)] = [5, 3] \<and>
   out_of_order (scan_sent [(3, 1), (5, 2)]
     [(5, \<lparr>recv_time = 5 / 2, checksum = 0, data = []\<rparr>),
      (3, \<lparr>recv_time = 3, checksum = 0, data = []\<rparr>)]) = 0 \<and>
   map_of (metric_sample 64 [(3, 1), (5, 2)]
     [(5, \<lparr>recv_time = 5 / 2, checksum = 0, data = []\<rparr>),
      (3, \<lparr>recv_time = 3, checksum = 0, data = []\<rparr>)] 4) ''Out-of-Order Packets'' = Some 0"
  by (simp add: keys_def metric_sample_def Let_def scan_sent_def scan_init_def scan_step_def)

section \<open>The sender's sequence numbers\<close>

lemma make_packet_seq: "make_packet n d = Inr p \<Longrightarrow> take 4 p = be32 n"
  by (auto simp: make_packet_def pack_II_def length_be32 split: if_splits sum.splits)

lemma send_loop_inv:
  assumes "send_loop es s wire = (st, s', wire')"
    and "sequence_number s = int (length wire)"
    and "keys (sent_packets s) = map int [0..<length wire]"
    and "\<forall>i<length wire. take 4 (wire ! i) = be32 (int i)"
  shows "sequence_number s' = int (length wire') \<and>
         keys (sent_packets s') =
           map int [0..<length wire' + (if st = SendError then 1 else 0)] \<and>
         (\<forall>i<length wire'. take 4 (wire' ! i) = be32 (int i))"
  using assms
proof (induction es arbitrary: s wire)
  case Nil
  then show ?case by simp
next
  case (Cons e es)
  let ?n = "sequence_number s"
  show ?case
  proof (cases "env_stop e \<or> env_time e - start_time s \<ge> duration s")
    case True
    then show ?thesis using Cons.prems by (auto split: if_splits)
  next
    case False
    show ?thesis
    proof (cases "make_packet ?n (env_data e)")
      case (Inl err)
      then show ?thesis using Cons.prems False by auto
    next
      case (Inr packet)
      let ?s1 = "s\<lparr>sent_packets := AList.update ?n (env_time e) (sent_packets s)\<rparr>"
      have fresh: "?n \<notin> set (map fst (sent_packets s))"
        using Cons.prems(2,3) by (auto simp: keys_def)
      have k1: "keys (sent_packets ?s1) = map int [0..<Suc (length wire)]"
        using Cons.prems(2,3) fresh by (simp add: keys_def update_keys)
      show ?thesis
      proof (cases "env_send_ok e")
        case False
        with \<open>\<not> (env_stop e \<or> env_time e - start_time s \<ge> duration s)\<close> Inr Cons.prems(1)
        have "st = SendError" "s' = ?s1" "wire' = wire"
          by (simp_all add: Let_def)
        then show ?thesis using k1 Cons.prems by simp
      next
        case True
        let ?s2 = "?s1\<lparr>sequence_number := ?n + 1\<rparr>"
        have run: "send_loop es ?s2 (wire @ [packet]) = (st, s', wire')"
          using \<open>\<not> (env_stop e \<or> env_time e - start_time s \<ge> duration s)\<close> Inr True
            Cons.prems(1) by (simp add: Let_def)
        have p: "take 4 packet = be32 (int (length wire))"
          using make_packet_seq [OF Inr] Cons.prems(2) by simp
        have w: "\<forall>i<length (wire @ [packet]). take 4 ((wire @ [packet]) ! i) = be32 (int i)"
          using Cons.prems(4) p by (auto simp: nth_append less_Suc_eq)
        show ?thesis
          using Cons.IH [OF run _ _ w] k1 Cons.prems(2) by simp
      qed
    qed
  qed
qed

lemma send_three:
  "send_packets True
     [\<lparr>env_stop = False, env_time = 1, env_data = [1, 2], env_send_ok = True\<rparr>,
      \<lparr>env_stop = False, env_time = 2, env_data = [3, 4], env_send_ok = True\<rparr>,
      \<lparr>env_stop = False, env_time = 3, env_data = [5, 6], env_send_ok = False\<rparr>]
     (init 2 60 ''metrics.csv'' 0) =
   (SendError,
    (init 2 60 ''metrics.csv'' 0)
      \<lparr>sequence_number := 2, sent_packets := [(0, 1), (1, 2), (2, 3)]\<rparr>,
    [be32 0 @ be32 (md5_checksum [1, 2]) @ [1, 2], be32 1 @ be32 (md5_checksum [3, 4]) @ [3, 4]])"
  by (simp add: send_packets_def init_def make_packet_ok)

text \<open>
  Claim C7, as the code has it. In every run of the sender from a fresh tester, after any
  number of iterations: the sequence number equals the number \<open>n\<close> of frames sent so far,
  the frame sent as number \<open>i\<close> carries sequence number \<open>i\<close>, and the keys of the sent
  dictionary are 0 .. n-1, each once and in this order; when the run has ended by a
  failed send, the record of the failed attempt is present too and the keys are 0 .. n.
\<close>

theorem sender_sequence:
  assumes "send_packets connect_ok es (init psize dur out t0) = (st, s', wire)"
  shows "sequence_number s' = int (length wire) \<and>
         keys (sent_packets s') =
           map int [0..<length wire + (if st = SendError then 1 else 0)] \<and>
         distinct (keys (sent_packets s')) \<and>
         (\<forall>i<length wire. take 4 (wire ! i) = be32 (int i))"
proof (cases connect_ok)
  case False
  then show ?thesis using assms by (auto simp: send_packets_def init_def keys_def)
next
  case True
  then have "send_loop es (init psize dur out t0) [] = (st, s', wire)"
    using assms by (simp add: send_packets_def)
  then have inv: "sequence_number s' = int (length wire) \<and>
         keys (sent_packets s') =
           map int [0..<length wire + (if st = SendError then 1 else 0)] \<and>
         (\<forall>i<length wire. take 4 (wire ! i) = be32 (int i))"
    by (rule send_loop_inv) (simp_all add: init_def keys_def)
  then have "distinct (keys (sent_packets s'))"
    by (simp add: distinct_map inj_on_def del: upt_Suc)
  with inv show ?thesis by simp
qed

theorem sender_sequence_witness:
  "send_packets True
     [\<lparr>env_stop = False, env_time = 1, env_data = [1, 2], env_send_ok = True\<rparr>,
      \<lparr>env_stop = False, env_time = 2, env_data = [3, 4], env_send_ok = True\<rparr>,
      \<lparr>env_stop = False, env_time = 3, env_data = [5, 6], env_send_ok = False\<rparr>]
     (init 2 60 ''metrics.csv'' 0) =
   (SendError,
    (init 2 60 ''metrics.csv'' 0)
      \<lparr>sequence_number := 2, sent_packets := [(0, 1), (1, 2), (2, 3)]\<rparr>,
    [be32 0 @ be32 (md5_checksum [1, 2]) @ [1, 2], be32 1 @ be32 (md5_checksum [3, 4]) @ [3, 4]]) \<and>
   sequence_number ((init 2 60 ''metrics.csv'' 0)
      \<lparr>sequence_number := 2, sent_packets := [(0, 1), (1, 2), (2, 3)]\<rparr>) = 2 \<and>
   keys (sent_packets ((init 2 60 ''metrics.csv'' 0)
      \<lparr>sequence_number := 2, sent_packets := [(0, 1), (1, 2), (2, 3)]\<rparr>)) = [0, 1, 2] \<and>
   take 4 ([be32 0 @ be32 (md5_checksum [1, 2]) @ [1, 2],
            be32 1 @ be32 (md5_checksum [3, 4]) @ [3, 4]] ! 1) = be32 1"
  using sender_sequence [OF send_three] send_three
  by (simp add: keys_def length_be32)

text \<open>
  A run whose first send fails has sent no frame, and the sent dictionary has the key 0.
\<close>

theorem sender_sequence_counterexample:
  "fst (send_packets True
     [\<lparr>env_stop = False, env_time = 1, env_data = [1, 2], env_send_ok = False\<rparr>]
     (init 2 60 ''metrics.csv'' 0)) = SendError \<and>
   snd (snd (send_packets True
     [\<lparr>env_stop = False, env_time = 1, env_data = [1, 2], env_send_ok = False\<rparr>]
     (init 2 60 ''metrics.csv'' 0))) = [] \<and>
   keys (sent_packets (fst (snd (send_packets True
     [\<lparr>env_stop = False, env_time = 1, env_data = [1, 2], env_send_ok = False\<rparr>]
     (init 2 60 ''metrics.csv'' 0))))) = [0]"
  by (simp add: send_packets_def init_def make_packet_ok keys_def)

section \<open>Reading a frame\<close>

lemma md5_checksum_ab: "md5_checksum [0x61, 0x62] = 410973251"
  by code_simp

lemma recv_nothing: "concat c = [] \<Longrightarrow> recv n c = ([], [])"
  by (induction c) simp_all

text \<open>
  Claim C5, as the code has it. The receiver's read of a frame succeeds with the sequence
  number, the checksum and the payload whenever at least 8 + \<open>packet_size\<close> bytes are
  available to its two reads. It creates no record when the stream ends before the header
  (the header read returns no byte) or right after it (the payload read returns no byte):
  the loop ends as on a close; nor when the stream ends inside the header
  (\<open>struct.unpack\<close> raises, which ends the receiver). There is no error of its own for a
  frame that is too short; what a read returns that is short while more bytes are still to
  come is left open here (claim C9 covers the payload).
\<close>

theorem receive_frame_cases:
  "(length h = 8 \<and> length d = psize \<and> 0 < psize \<longrightarrow>
      receive_frame psize now ((h @ d @ rest) # cs) received =
        (Continue, (if rest = [] then cs else rest # cs),
         AList.update (be_int (take 4 h))
           \<lparr>recv_time = now, checksum = be_int (drop 4 h), data = d\<rparr> received)) \<and>
   (concat c = [] \<longrightarrow> receive_frame psize now c received = (Closed, [], received)) \<and>
   (length h = 8 \<and> concat cs = [] \<longrightarrow>
      receive_frame psize now (h # cs) received = (Closed, [], received)) \<and>
   (0 < length h \<and> length h < 8 \<and> concat cs = [] \<longrightarrow>
      receive_frame psize now (h # cs) received = (Failed StructError, cs, received))"
proof -
  have a: "receive_frame psize now ((h @ d @ rest) # cs) received =
        (Continue, (if rest = [] then cs else rest # cs),
         AList.update (be_int (take 4 h))
           \<lparr>recv_time = now, checksum = be_int (drop 4 h), data = d\<rparr> received)"
    if "length h = 8" "length d = psize" "0 < psize"
  proof -
    have dne: "d \<noteq> []" and hne: "h \<noteq> []" using that by auto
    have r1: "recv 8 ((h @ d @ rest) # cs) = (h, (d @ rest) # cs)"
      using recv_front [of h 8 "d @ rest" cs] that dne by simp
    have r2: "recv psize ((d @ rest) # cs) = (d, if rest = [] then cs else rest # cs)"
      using recv_front [of d psize rest cs] that by simp
    have up: "unpack_II h = Inr (be_int (take 4 h), be_int (drop 4 h))"
      using that by (simp add: unpack_II_def)
    show ?thesis unfolding receive_frame_def using r1 r2 up dne hne by simp
  qed
  have b: "receive_frame psize now c received = (Closed, [], received)" if "concat c = []"
    unfolding receive_frame_def using recv_nothing [OF that, of 8] by simp
  have c: "receive_frame psize now (h # cs) received = (Closed, [], received)"
    if "length h = 8" "concat cs = []"
  proof -
    have hne: "h \<noteq> []" using that by auto
    have r1: "recv 8 (h # cs) = (h, cs)" using that hne by simp
    have up: "unpack_II h = Inr (be_int (take 4 h), be_int (drop 4 h))"
      using that by (simp add: unpack_II_def)
    show ?thesis unfolding receive_frame_def
      using r1 up hne recv_nothing [OF that(2), of psize] by simp
  qed
  have d: "receive_frame psize now (h # cs) received = (Failed StructError, cs, received)"
    if "0 < length h" "length h < 8"
  proof -
    have hne: "h \<noteq> []" using that by auto
    have r1: "recv 8 (h # cs) = (h, cs)" using that hne by simp
    have up: "unpack_II h = Inl StructError"
      using that by (simp add: unpack_II_def)
    show ?thesis unfolding receive_frame_def using r1 up hne by simp
  qed
  show ?thesis using a b c d by blast
qed

theorem receive_frame_cases_witness:
  "length [0, 0, 0, 7, 0, 0, 0, 9 :: byte] = 8 \<and> length [1, 2 :: byte] = 2 \<and> (0 :: nat) < 2 \<and>
   receive_frame 2 5 [[0, 0, 0, 7, 0, 0, 0, 9, 1, 2, 3]] [] =
     (Continue, [[3]], [(7, \<lparr>recv_time = 5, checksum = 9, data = [1, 2]\<rparr>)]) \<and>
   concat [[] :: byte list] = [] \<and> receive_frame 2 5 [[]] [] = (Closed, [], []) \<and>
   concat ([] :: byte list list) = [] \<and>
   receive_frame 2 5 [[0, 0, 0, 7, 0, 0, 0, 9]] [] = (Closed, [], []) \<and>
   0 < length [0, 0, 0 :: byte] \<and> length [0, 0, 0 :: byte] < 8 \<and>
   receive_frame 2 5 [[0, 0, 0]] [] = (Failed StructError, [], [])"
  using receive_frame_cases [of "[0, 0, 0, 7, 0, 0, 0, 9]" "[1, 2]" 2 5 "[3]" "[]" "[]" "[[]]"]
    receive_frame_cases [of "[0, 0, 0, 7, 0, 0, 0, 9]" "[1, 2]" 2 5 "[3]" "[]" "[]" "[]"]
    receive_frame_cases [of "[0, 0, 0]" "[1, 2]" 2 5 "[3]" "[]" "[]" "[]"]
  by (simp add: be_int_def)

text \<open>
  With a packet size of 4, nine bytes (fewer than 8 + 4) are read as a frame, and a record
  is created.
\<close>

theorem receive_frame_counterexample:
  "length (concat [[0, 0, 0, 0, 0, 0, 0, 0, 1 :: byte]]) < 8 + 4 \<and>
   receive_frame 4 9 [[0, 0, 0, 0, 0, 0, 0, 0, 1]] [] =
     (Continue, [], [(0, \<lparr>recv_time = 9, checksum = 0, data = [1]\<rparr>)])"
  by (simp add: receive_frame_def unpack_II_def be_int_def)

section \<open>Truncated payloads\<close>

lemma corrupt_fold:
  "corrupt_packets (foldl (scan_step received) acc sent) =
     corrupt_packets acc + length (filter (counted_corrupt received) (keys sent))"
proof (induction sent arbitrary: acc)
  case Nil
  then show ?case by (simp add: keys_def)
next
  case (Cons p sent)
  obtain k t where p: "p = (k, t)" by (cases p)
  have "corrupt_packets (scan_step received acc p) =
          corrupt_packets acc + (if counted_corrupt received k then 1 else 0)"
    using p by (simp add: scan_step_def counted_corrupt_def split: option.splits)
  then show ?case using Cons.IH [of "scan_step received acc p"] p by (simp add: keys_def)
qed

text \<open>
  Claim C9, as the code has it. After a header of 8 bytes the receiver records whatever
  non-empty byte string the next read returns as the payload, without comparing its length
  with \<open>packet_size\<close>, so a record's payload may be shorter than \<open>packet_size\<close>. The
  sampler counts as corrupt exactly the sent sequence numbers whose record carries a
  checksum different from the checksum of the recorded payload: a truncated record is
  counted when its sequence number was sent and the checksum of the truncated payload
  differs from the one in its header.
\<close>

theorem truncated_record:
  "(length h = 8 \<and> d \<noteq> [] \<and> length d \<le> psize \<longrightarrow>
      receive_frame psize now (h # d # cs) earlier =
        (Continue, cs,
         AList.update (be_int (take 4 h))
           \<lparr>recv_time = now, checksum = be_int (drop 4 h), data = d\<rparr> earlier)) \<and>
   corrupt_packets (scan_sent sent received) =
     length (filter (counted_corrupt received) (keys sent)) \<and>
   map_of (metric_sample psize sent received t) ''Corrupt Packets'' =
     Some (real (length (filter (counted_corrupt received) (keys sent))))"
proof -
  have a: "receive_frame psize now (h # d # cs) earlier =
        (Continue, cs,
         AList.update (be_int (take 4 h))
           \<lparr>recv_time = now, checksum = be_int (drop 4 h), data = d\<rparr> earlier)"
    if "length h = 8" "d \<noteq> []" "length d \<le> psize"
  proof -
    have hne: "h \<noteq> []" using that by auto
    have r1: "recv 8 (h # d # cs) = (h, d # cs)" using that hne by simp
    have r2: "recv psize (d # cs) = (d, cs)" using that by simp
    have up: "unpack_II h = Inr (be_int (take 4 h), be_int (drop 4 h))"
      using that by (simp add: unpack_II_def)
    show ?thesis unfolding receive_frame_def using r1 r2 up hne that by simp
  qed
  have b: "corrupt_packets (scan_sent sent received) =
     length (filter (counted_corrupt received) (keys sent))"
    using corrupt_fold [of received scan_init sent] by (simp add: scan_sent_def scan_init_def)
  show ?thesis using a b by (simp add: metric_sample_def Let_def)
qed

text \<open>
  The sender's frame for the two-byte payload \<open>ab\<close>, read back with the payload arriving
  one byte at a time: the record holds \<open>a\<close> alone and is counted as corrupt.
\<close>

theorem truncated_record_witness:
  "length (be32 0 @ be32 410973251) = 8 \<and> [0x61 :: byte] \<noteq> [] \<and>
   length [0x61 :: byte] \<le> 2 \<and>
   make_packet 0 [0x61, 0x62] = Inr (be32 0 @ be32 410973251 @ [0x61, 0x62]) \<and>
   receive_frame 2 5 [be32 0 @ be32 410973251, [0x61], [0x62]] [] =
     (Continue, [[0x62]], [(0, \<lparr>recv_time = 5, checksum = 410973251, data = [0x61]\<rparr>)]) \<and>
   corrupt_packets (scan_sent [(0, 1)]
     [(0, \<lparr>recv_time = 5, checksum = 410973251, data = [0x61]\<rparr>)]) = 1"
  using truncated_record [where h = "be32 0 @ be32 410973251" and d = "[0x61]" and psize = 2
      and now = 5 and cs = "[[0x62]]" and sent = "[(0, 1)]" and t = 9
      and earlier = "[]"
      and received = "[(0, \<lparr>recv_time = 5, checksum = 410973251, data = [0x61]\<rparr>)]"]
    make_packet_ok [of 0 "[0x61, 0x62]"]
  by (simp add: length_be32 be_int_be32 md5_checksum_ab md5_checksum_a counted_corrupt_def
      keys_def)

text \<open>
  A frame whose header carries the checksum of the one-byte payload \<open>a\<close>, read with a
  packet size of 4: the record's payload is shorter than the packet size, and the record
  is matched and not counted as corrupt.
\<close>

theorem truncated_record_counterexample:
  "receive_frame 4 5 [[0, 0, 0, 0, 0x0c, 0xc1, 0x75, 0xb9], [0x61]] [] =
     (Continue, [], [(0, \<lparr>recv_time = 5, checksum = 214005177, data = [0x61]\<rparr>)]) \<and>
   length [0x61 :: byte] < 4 \<and>
   corrupt_packets (scan_sent [(0, 1)]
     [(0, \<lparr>recv_time = 5, checksum = 214005177, data = [0x61]\<rparr>)]) = 0"
  by (simp add: receive_frame_def unpack_II_def be_int_def scan_sent_def scan_init_def
      scan_step_def md5_checksum_a)

section \<open>The sample is a function of the snapshot\<close>

lemma latencies_fold:
  "latencies (foldl (scan_step received) acc sent) =
     latencies acc @ matched_latencies sent received"
proof (induction sent arbitrary: acc)
  case Nil
  then show ?case by (simp add: matched_latencies_def)
next
  case (Cons p sent)
  obtain k t where p: "p = (k, t)" by (cases p)
  have "latencies (scan_step received acc p) =
          latencies acc @ (case map_of received k of
                             None \<Rightarrow> []
                           | Some info \<Rightarrow> [recv_time info - t])"
    using p by (simp add: scan_step_def split: option.splits)
  then show ?case
    using Cons.IH [of "scan_step received acc p"] p by (simp add: matched_latencies_def)
qed

text \<open>The sample without the loop: every field written out from the two dictionaries.\<close>

lemma metric_sample_closed:
  "metric_sample psize sent received e =
     [(''Time'', e),
      (''Bandwidth(bps)'', if e > 0 then real (length received * psize * 8) / e else 0),
      (''Latency(s)'', if matched_latencies sent received \<noteq> []
                       then mean (matched_latencies sent received) else 0),
      (''Jitter(s)'', calculate_jitter (matched_latencies sent received)),
      (''Packet Loss(%)'',
         (if length sent > 0
          then (real (length sent) - real (length received)) / real (length sent) else 0) * 100),
      (''Corrupt Packets'', real (length (filter (counted_corrupt received) (keys sent)))),
      (''Out-of-Order Packets'', real (descents (- 1 # matched sent received)))]"
proof -
  have l: "latencies (scan_sent sent received) = matched_latencies sent received"
    using latencies_fold [of received scan_init sent] by (simp add: scan_sent_def scan_init_def)
  have c: "corrupt_packets (scan_sent sent received) =
             length (filter (counted_corrupt received) (keys sent))"
    using corrupt_fold [of received scan_init sent] by (simp add: scan_sent_def scan_init_def)
  have o: "out_of_order (scan_sent sent received) = descents (- 1 # matched sent received)"
    using scan_fold [of received scan_init sent] by (simp add: scan_sent_def scan_init_def)
  show ?thesis
    unfolding metric_sample_def Let_def l c o by (simp add: mean_def)
qed

lemma metric_sample_lookup:
  assumes "map_of received' = map_of received" and "length received' = length received"
  shows "metric_sample psize sent received' e = metric_sample psize sent received e"
proof -
  have eqs: "matched sent received' = matched sent received"
    "matched_latencies sent received' = matched_latencies sent received"
    "counted_corrupt received' = counted_corrupt received"
    using assms(1) by (simp_all add: matched_def matched_latencies_def counted_corrupt_def fun_eq_iff)
  show ?thesis unfolding metric_sample_closed by (simp only: eqs assms(2))
qed

lemma received_swapped:
  "map_of [(1 :: int, b), (0, a)] = map_of [(0, a), (1, b)]"
  by (auto simp: fun_eq_iff)

text \<open>
  Claim C8. A tick appends the sample computed from the packet size, the two dictionaries
  and the elapsed time, and changes none of them, so a second tick at the same clock
  reading appends the same sample again. The sample is the seven fields written out below:
  time, bandwidth, mean and jitter of the latencies of the matched records in send order,
  loss, the number of matched records failing the checksum comparison, and the number of
  descents of the matched sequence numbers. It depends on the received dictionary only
  through its size and its lookups, so two states that agree on the packet size, the sent
  dictionary, the size and the lookups of the received dictionary and the elapsed time
  get the same sample, whatever else differs between them (the samples taken before, the
  sequence number, the order in which the records were received).
\<close>

theorem measure_metrics_deterministic:
  "metrics (measure_metrics now (measure_metrics now s)) =
     metrics s @
       [metric_sample (packet_size s) (sent_packets s) (received_packets s) (now - start_time s),
        metric_sample (packet_size s) (sent_packets s) (received_packets s) (now - start_time s)] \<and>
   sent_packets (measure_metrics now s) = sent_packets s \<and>
   received_packets (measure_metrics now s) = received_packets s \<and>
   packet_size (measure_metrics now s) = packet_size s \<and>
   start_time (measure_metrics now s) = start_time s \<and>
   last (metrics (measure_metrics now s)) =
     [(''Time'', now - start_time s),
      (''Bandwidth(bps)'',
         if now - start_time s > 0
         then real (length (received_packets s) * packet_size s * 8) / (now - start_time s)
         else 0),
      (''Latency(s)'',
         if matched_latencies (sent_packets s) (received_packets s) \<noteq> []
         then mean (matched_latencies (sent_packets s) (received_packets s)) else 0),
      (''Jitter(s)'', calculate_jitter (matched_latencies (sent_packets s) (received_packets s))),
      (''Packet Loss(%)'',
         (if length (sent_packets s) > 0
          then (real (length (sent_packets s)) - real (length (received_packets s)))
                 / real (length (sent_packets s))
          else 0) * 100),
      (''Corrupt Packets'',
         real (length (filter (counted_corrupt (received_packets s)) (keys (sent_packets s))))),
      (''Out-of-Order Packets'',
         real (descents (- 1 # matched (sent_packets s) (received_packets s))))] \<and>
   (packet_size s' = packet_size s \<and> sent_packets s' = sent_packets s \<and>
    map_of (received_packets s') = map_of (received_packets s) \<and>
    length (received_packets s') = length (received_packets s) \<and>
    now' - start_time s' = now - start_time s \<longrightarrow>
    last (metrics (measure_metrics now' s')) = last (metrics (measure_metrics now s)))"
proof -
  have twice: "metrics (measure_metrics now (measure_metrics now s)) =
     metrics s @
       [metric_sample (packet_size s) (sent_packets s) (received_packets s) (now - start_time s),
        metric_sample (packet_size s) (sent_packets s) (received_packets s) (now - start_time s)]"
    by (simp add: measure_metrics_def)
  have frame: "sent_packets (measure_metrics now s) = sent_packets s"
    "received_packets (measure_metrics now s) = received_packets s"
    "packet_size (measure_metrics now s) = packet_size s"
    "start_time (measure_metrics now s) = start_time s"
    by (simp_all add: measure_metrics_def)
  have lst: "last (metrics (measure_metrics t u)) =
      metric_sample (packet_size u) (sent_packets u) (received_packets u) (t - start_time u)"
    for t u by (simp add: measure_metrics_def)
  have same: "last (metrics (measure_metrics now' s')) = last (metrics (measure_metrics now s))"
    if "packet_size s' = packet_size s" "sent_packets s' = sent_packets s"
      "map_of (received_packets s') = map_of (received_packets s)"
      "length (received_packets s') = length (received_packets s)"
      "now' - start_time s' = now - start_time s"
    unfolding lst using that metric_sample_lookup [OF that(3,4)] by simp
  show ?thesis
    using twice frame same unfolding lst [of now s] metric_sample_closed by blast
qed

text \<open>
  Two states after three sends and two echoes, the second echo with a wrong checksum:
  they differ in the order of the received records, the samples taken before, the
  sequence number and the clock, and get the same sample.
\<close>

theorem measure_metrics_deterministic_witness:
  "packet_size ((init 2 60 ''b.csv'' 5)
      \<lparr>metrics := [[(''Time'', 1)]],
       sent_packets := [(0, 1), (1, 2), (2, 3)],
       received_packets := [(1, \<lparr>recv_time = 4, checksum = 0, data = [0x61, 0x62]\<rparr>),
                            (0, \<lparr>recv_time = 2, checksum = 214005177, data = [0x61]\<rparr>)]\<rparr>) =
   packet_size ((init 2 60 ''a.csv'' 0)
      \<lparr>sequence_number := 3,
       sent_packets := [(0, 1), (1, 2), (2, 3)],
       received_packets := [(0, \<lparr>recv_time = 2, checksum = 214005177, data = [0x61]\<rparr>),
                            (1, \<lparr>recv_time = 4, checksum = 0, data = [0x61, 0x62]\<rparr>)]\<rparr>) \<and>
   map_of [(1 :: int, \<lparr>recv_time = 4, checksum = 0, data = [0x61, 0x62]\<rparr>),
           (0, \<lparr>recv_time = 2, checksum = 214005177, data = [0x61]\<rparr>)] =
   map_of [(0, \<lparr>recv_time = 2, checksum = 214005177, data = [0x61]\<rparr>),
           (1, \<lparr>recv_time = 4, checksum = 0, data = [0x61, 0x62]\<rparr>)] \<and>
   length [(1 :: int, \<lparr>recv_time = 4, checksum = 0, data = [0x61, 0x62]\<rparr>),
           (0, \<lparr>recv_time = 2, checksum = 214005177, data = [0x61]\<rparr>)] =
   length [(0 :: int, \<lparr>recv_time = 2, checksum = 214005177, data = [0x61]\<rparr>),
           (1, \<lparr>recv_time = 4, checksum = 0, data = [0x61, 0x62]\<rparr>)] \<and>
   (9 :: real) - 5 = 4 - 0 \<and>
   last (metrics (measure_metrics 9 ((init 2 60 ''b.csv'' 5)
      \<lparr>metrics := [[(''Time'', 1)]],
       sent_packets := [(0, 1), (1, 2), (2, 3)],
       received_packets := [(1, \<lparr>recv_time = 4, checksum = 0, data = [0x61, 0x62]\<rparr>),
                            (0, \<lparr>recv_time = 2, checksum = 214005177, data = [0x61]\<rparr>)]\<rparr>))) =
   last (metrics (measure_metrics 4 ((init 2 60 ''a.csv'' 0)
      \<lparr>sequence_number := 3,
       sent_packets := [(0, 1), (1, 2), (2, 3)],
       received_packets := [(0, \<lparr>recv_time = 2, checksum = 214005177, data = [0x61]\<rparr>),
                            (1, \<lparr>recv_time = 4, checksum = 0, data = [0x61, 0x62]\<rparr>)]\<rparr>))) \<and>
   last (metrics (measure_metrics 4 ((init 2 60 ''a.csv'' 0)
      \<lparr>sequence_number := 3,
       sent_packets := [(0, 1), (1, 2), (2, 3)],
       received_packets := [(0, \<lparr>recv_time = 2, checksum = 214005177, data = [0x61]\<rparr>),
                            (1, \<lparr>recv_time = 4, checksum = 0, data = [0x61, 0x62]\<rparr>)]\<rparr>))) =
     [(''Time'', 4), (''Bandwidth(bps)'', 8), (''Latency(s)'', 3 / 2), (''Jitter(s)'', 1 / 2),
      (''Packet Loss(%)'', 100 / 3), (''Corrupt Packets'', 1), (''Out-of-Order Packets'', 0)]"
  using measure_metrics_deterministic
    [of 4 "(init 2 60 ''a.csv'' 0)
      \<lparr>sequence_number := 3,
       sent_packets := [(0, 1), (1, 2), (2, 3)],
       received_packets := [(0, \<lparr>recv_time = 2, checksum = 214005177, data = [0x61]\<rparr>),
                            (1, \<lparr>recv_time = 4, checksum = 0, data = [0x61, 0x62]\<rparr>)]\<rparr>"
      "(init 2 60 ''b.csv'' 5)
      \<lparr>metrics := [[(''Time'', 1)]],
       sent_packets := [(0, 1), (1, 2), (2, 3)],
       received_packets := [(1, \<lparr>recv_time = 4, checksum = 0, data = [0x61, 0x62]\<rparr>),
                            (0, \<lparr>recv_time = 2, checksum = 214005177, data = [0x61]\<rparr>)]\<rparr>" 9]
    received_swapped [of "\<lparr>recv_time = 4, checksum = 0, data = [0x61, 0x62]\<rparr>"
      "\<lparr>recv_time = 2, checksum = 214005177, data = [0x61]\<rparr>"]
  by (simp add: init_def keys_def matched_def matched_latencies_def counted_corrupt_def
      mean_def calculate_jitter_def md5_checksum_a md5_checksum_ab)

section \<open>The echo responder\<close>

text \<open>
  Claim C4 does not hold of \<open>handle_client\<close>: a single \<open>recv\<close> is taken for the header and
  a single one for the payload, and a short read is never retried. The sender's frame for
  the payload \<open>a\<close> (packet size 1) is echoed when it arrives in one piece; when its
  first four bytes arrive alone, the header read is short, \<open>struct.unpack\<close> raises, and
  nothing is echoed. The frame for the payload \<open>ab\<close> (packet size 2) whose last byte
  arrives late is echoed without that byte, which is then taken for a header.
\<close>

theorem handle_client_split_frame:
  "make_packet 0 [0x61] = Inr [0, 0, 0, 0, 0x0c, 0xc1, 0x75, 0xb9, 0x61] \<and>
   handle_client 1 [[0, 0, 0, 0, 0x0c, 0xc1, 0x75, 0xb9, 0x61]] [] =
     (Closed, [0, 0, 0, 0, 0x0c, 0xc1, 0x75, 0xb9, 0x61]) \<and>
   handle_client 1 [[0, 0, 0, 0], [0x0c, 0xc1, 0x75, 0xb9, 0x61]] [] =
     (Failed StructError, []) \<and>
   make_packet 0 [0x61, 0x62] = Inr [0, 0, 0, 0, 0x18, 0x7e, 0xf4, 0x43, 0x61, 0x62] \<and>
   handle_client 2 [[0, 0, 0, 0, 0x18, 0x7e, 0xf4, 0x43, 0x61], [0x62]] [] =
     (Failed StructError, [0, 0, 0, 0, 0x18, 0x7e, 0xf4, 0x43, 0x61])"
  by (simp add: make_packet_ok md5_checksum_a md5_checksum_ab be32_def unpack_II_def
      handle_client.simps)

section \<open>Further properties\<close>

text \<open>
  Frames that each arrive in one piece are echoed byte for byte, and the loop ends when the
  peer closes.
\<close>

theorem echo_whole_frames:
  "0 < psize \<Longrightarrow> list_all (\<lambda>f. length f = 8 + psize) frames \<Longrightarrow>
   handle_client psize frames out = (Closed, out @ concat frames)"
proof (induction frames arbitrary: out)
  case Nil
  show ?case by (subst handle_client.simps) simp
next
  case (Cons f frames)
  then have len: "length f = 8 + psize" and rest: "list_all (\<lambda>f. length f = 8 + psize) frames"
    by simp_all
  have r1: "recv 8 (f # frames) = (take 8 f, drop 8 f # frames)"
    using len Cons.prems(1) by auto
  have r2: "recv psize (drop 8 f # frames) = (drop 8 f, frames)"
    using len Cons.prems(1) by auto
  have up: "unpack_II (take 8 f) = Inr (be_int (take 4 f), be_int (drop 4 (take 8 f)))"
    using len by (simp add: unpack_II_def min_def)
  have ne: "f \<noteq> []" "\<not> length f \<le> 8" using len Cons.prems(1) by auto
  have "handle_client psize (f # frames) out =
          handle_client psize frames (out @ take 8 f @ drop 8 f)"
    by (subst handle_client.simps) (simp add: r1 r2 up ne Let_def del: recv.simps)
  then show ?case using Cons.IH [OF Cons.prems(1) rest] by simp
qed

theorem echo_whole_frames_witness:
  "(0 :: nat) < 1 \<and>
   list_all (\<lambda>f. length f = 8 + 1)
     [[0, 0, 0, 0, 0, 0, 0, 9, 1], [0, 0, 0, 1, 0, 0, 0, 9, 2 :: byte]] \<and>
   handle_client 1 [[0, 0, 0, 0, 0, 0, 0, 9, 1], [0, 0, 0, 1, 0, 0, 0, 9, 2]] [] =
     (Closed, [0, 0, 0, 0, 0, 0, 0, 9, 1, 0, 0, 0, 1, 0, 0, 0, 9, 2])"
  using echo_whole_frames [of 1 "[[0, 0, 0, 0, 0, 0, 0, 9, 1], [0, 0, 0, 1, 0, 0, 0, 9, 2]]" "[]"]
  by simp

lemma sorted_map_int: "sorted (map int [0..<n])"
  by (simp add: sorted_map sorted_wrt_iff_nth_less)

text \<open>
  The sent dictionary a run of the sender builds is in ascending order of sequence
  numbers, so the sampler counts no reorder event on it, whatever has been received.
\<close>

theorem sender_never_reordered:
  assumes "send_packets connect_ok es (init psize dur out t0) = (st, s', wire)"
  shows "out_of_order (scan_sent (sent_packets s') received) = 0"
proof -
  have "\<exists>n. keys (sent_packets s') = map int [0..<n]"
  proof (cases connect_ok)
    case False
    then have "keys (sent_packets s') = map int [0..<0]"
      using assms by (auto simp: send_packets_def init_def keys_def)
    then show ?thesis by blast
  next
    case True
    then have "send_loop es (init psize dur out t0) [] = (st, s', wire)"
      using assms by (simp add: send_packets_def)
    then have "sequence_number s' = int (length wire) \<and>
         keys (sent_packets s') =
           map int [0..<length wire + (if st = SendError then 1 else 0)] \<and>
         (\<forall>i<length wire. take 4 (wire ! i) = be32 (int i))"
      by (rule send_loop_inv) (simp_all add: init_def keys_def)
    then show ?thesis by blast
  qed
  then obtain n where k: "keys (sent_packets s') = map int [0..<n]" by blast
  have "sorted (keys (sent_packets s'))" unfolding k by (rule sorted_map_int)
  moreover have "list_all (\<lambda>k. - 1 \<le> k) (keys (sent_packets s'))"
    unfolding k by (simp add: list_all_iff)
  ultimately show ?thesis by (rule ascending_no_reorder)
qed

theorem sender_never_reordered_witness:
  "send_packets True
     [\<lparr>env_stop = False, env_time = 1, env_data = [1, 2], env_send_ok = True\<rparr>,
      \<lparr>env_stop = False, env_time = 2, env_data = [3, 4], env_send_ok = True\<rparr>,
      \<lparr>env_stop = False, env_time = 3, env_data = [5, 6], env_send_ok = False\<rparr>]
     (init 2 60 ''metrics.csv'' 0) =
   (SendError,
    (init 2 60 ''metrics.csv'' 0)
      \<lparr>sequence_number := 2, sent_packets := [(0, 1), (1, 2), (2, 3)]\<rparr>,
    [be32 0 @ be32 (md5_checksum [1, 2]) @ [1, 2], be32 1 @ be32 (md5_checksum [3, 4]) @ [3, 4]]) \<and>
   out_of_order (scan_sent [(0, 1), (1, 2), (2, 3)]
     [(2, \<lparr>recv_time = 4, checksum = 0, data = []\<rparr>),
      (0, \<lparr>recv_time = 5, checksum = 0, data = []\<rparr>)]) = 0"
  using sender_never_reordered [OF send_three,
      of "[(2, \<lparr>recv_time = 4, checksum = 0, data = []\<rparr>),
           (0, \<lparr>recv_time = 5, checksum = 0, data = []\<rparr>)]"] send_three
  by (simp add: init_def)

end
